theory Spec2Isabelle
  imports Complex_Main
begin

section \<open>Data model (types.ts)\<close>

text \<open>
  The two string enums of \<^verbatim>\<open>types.ts\<close>, each value a constructor of the same name.
\<close>

datatype GameState = IDLE | COUNTDOWN | PLAYING | RESULT | GAME_OVER

datatype Gesture = NONE | ROCK | PAPER | SCISSORS

text \<open>
  \<^verbatim>\<open>interface Score { player: number; bot: number }\<close>. The numbers are counters that only
  ever hold small integers, so they are modelled as \<^typ>\<open>int\<close>.
\<close>

record Score =
  player :: int
  bot :: int

text \<open>
  The string literal union \<^verbatim>\<open>'player' | 'bot' | 'draw' | 'invalid'\<close> of
  \<^verbatim>\<open>GameResult.winner\<close>. The constructors carry a prefix because \<open>player\<close> and
  \<open>bot\<close> are already the fields of \<^typ>\<open>Score\<close>. The code never stores
  \<^verbatim>\<open>null\<close> in the field, so the union's \<^verbatim>\<open>null\<close> member has no constructor.
\<close>

datatype Winner = Winner_player | Winner_bot | Winner_draw | Winner_invalid

record GameResult =
  winner :: Winner
  message :: string

definition WINNING_SCORE :: int where
  "WINNING_SCORE = 3"

section \<open>Winner resolution (App, determineWinner and the message chain)\<close>

text \<open>
  \<^verbatim>\<open>determineWinner\<close>, with its three tests in the order of the source.
\<close>

definition determineWinner :: "Gesture \<Rightarrow> Gesture \<Rightarrow> Winner" where
  "determineWinner p b =
     (if p = NONE then Winner_invalid
      else if p = b then Winner_draw
      else if (p = ROCK \<and> b = SCISSORS) \<or> (p = PAPER \<and> b = ROCK) \<or> (p = SCISSORS \<and> b = PAPER)
        then Winner_player
      else Winner_bot)"

text \<open>
  The \<^verbatim>\<open>msg\<close> assignments of the capture callback: the chain tests
  \<^verbatim>\<open>'invalid'\<close>, \<^verbatim>\<open>'player'\<close>, \<^verbatim>\<open>'bot'\<close> and falls through to the draw
  message.
\<close>

definition result_message :: "Winner \<Rightarrow> string" where
  "result_message w =
     (if w = Winner_invalid then ''No Hand Detected''
      else if w = Winner_player then ''You Win!''
      else if w = Winner_bot then ''Bot Wins!''
      else ''Draw!'')"

text \<open>
  The object handed to \<^verbatim>\<open>setGameResult\<close>:
  \<^verbatim>\<open>{ winner: winner, message: msg }\<close>.
\<close>

definition round_result :: "Gesture \<Rightarrow> Gesture \<Rightarrow> GameResult" where
  "round_result p b =
     \<lparr>winner = determineWinner p b, message = result_message (determineWinner p b)\<rparr>"

section \<open>The round engine (App)\<close>

text \<open>
  The state of the \<^verbatim>\<open>App\<close> component that the game logic reads and writes: the six
  \<^verbatim>\<open>useState\<close> cells \<^verbatim>\<open>gameState\<close>, \<^verbatim>\<open>score\<close>, \<^verbatim>\<open>playerGesture\<close>,
  \<^verbatim>\<open>botGesture\<close>, \<^verbatim>\<open>gameResult\<close> (\<^verbatim>\<open>null\<close> is \<open>None\<close>) and
  \<^verbatim>\<open>countdown\<close>, and the two timer handles that the effects hold in their closures:
  \<^item> \<open>timer\<close>: the \<^verbatim>\<open>setInterval\<close> handle of the countdown effect is live;
  \<^item> \<open>timeout\<close>: \<open>Some p\<close> when the \<^verbatim>\<open>setTimeout\<close> of the playing effect is
    pending, \<open>p\<close> being the value of \<^verbatim>\<open>playerGesture\<close> that its callback closed over.

  The cells \<^verbatim>\<open>isModelLoading\<close>, \<^verbatim>\<open>permissionGranted\<close> and \<^verbatim>\<open>error\<close> belong to
  the camera and model start-up. The model covers the component once start-up has
  finished without error (\<^verbatim>\<open>isModelLoading\<close> false, \<^verbatim>\<open>error\<close> null), which is the
  only situation in which the game controls are rendered at all.
\<close>

record App =
  gameState :: GameState
  score :: Score
  playerGesture :: Gesture
  botGesture :: Gesture
  gameResult :: "GameResult option"
  countdown :: int
  timer :: bool
  timeout :: "Gesture option"

text \<open>
  The initial values of the \<^verbatim>\<open>useState\<close> calls. On mount every effect runs once and
  none of them does anything in this state, so no timer is live.
\<close>

definition initial :: App where
  "initial =
     \<lparr>gameState = IDLE, score = \<lparr>player = 0, bot = 0\<rparr>, playerGesture = NONE,
      botGesture = NONE, gameResult = None, countdown = 3, timer = False, timeout = None\<rparr>"

subsection \<open>Handlers and timer callbacks\<close>

text \<open>\<^verbatim>\<open>playRound\<close>: three unconditional state updates.\<close>

definition playRound :: "App \<Rightarrow> App" where
  "playRound s = s\<lparr>gameResult := None, gameState := COUNTDOWN, countdown := 3\<rparr>"

text \<open>\<^verbatim>\<open>resetGame\<close>: five unconditional state updates; \<^verbatim>\<open>countdown\<close> is not among them.\<close>

definition resetGame :: "App \<Rightarrow> App" where
  "resetGame s =
     s\<lparr>score := \<lparr>player = 0, bot = 0\<rparr>, gameState := IDLE, playerGesture := NONE,
       botGesture := NONE, gameResult := None\<rparr>"

text \<open>
  The callback of the one-second interval: \<^verbatim>\<open>setCountdown(prev => ...)\<close>. When
  \<^verbatim>\<open>prev <= 1\<close> the updater clears its own interval, requests \<^verbatim>\<open>PLAYING\<close> and
  returns 3; otherwise it returns \<^verbatim>\<open>prev - 1\<close>.
\<close>

definition interval_callback :: "App \<Rightarrow> App" where
  "interval_callback s =
     (if countdown s \<le> 1 then s\<lparr>timer := False, gameState := PLAYING, countdown := 3\<rparr>
      else s\<lparr>countdown := countdown s - 1\<rparr>)"

text \<open>
  JavaScript numbers are IEEE 754 doubles. The only numbers the bot's draw computes with
  are not negative, so a double is taken here as a significand and a binary exponent,
  \<open>Double m e\<close> standing for the number \<open>m * 2 ^ e\<close>, with \<open>m\<close> below \<open>2 ^ 53\<close> and
  \<open>e\<close> from \<open>- 1074\<close> (the exponent of the smallest subnormal) to 971.
  \<open>random_value d\<close> says that \<open>d\<close> is a value \<^verbatim>\<open>Math.random()\<close> can return: such a
  double, not below 0 and below 1.
\<close>

datatype double = Double (mant: nat) (expo: int)

definition random_value :: "double \<Rightarrow> bool" where
  "random_value d \<longleftrightarrow>
     mant d < 2 ^ 53 \<and> - 1074 \<le> expo d \<and> expo d \<le> 971 \<and>
     (mant d = 0 \<or> (expo d < 0 \<and> mant d < 2 ^ nat (- expo d)))"

text \<open>
  The product of a double and a small whole number \<open>n\<close> (here \<^verbatim>\<open>moves.length\<close>, which
  is 3), as \<^verbatim>\<open>*\<close> computes it: the exact product \<open>(m * n) * 2 ^ e\<close> rounded to 53
  significant bits, to the nearest double and to the one with the even significand when
  two are equally near. For \<open>n\<close> up to 4 the whole number \<open>m * n\<close> has at most 55 bits,
  so at most two bits are dropped. The product of a number below 1 and 3 neither
  overflows nor underflows.
\<close>

definition dropped_bits :: "nat \<Rightarrow> nat" where
  "dropped_bits P = (if P < 2 ^ 53 then 0 else if P < 2 ^ 54 then 1 else 2)"

definition round_half_even :: "nat \<Rightarrow> nat \<Rightarrow> nat" where
  "round_half_even P k =
     (let q = P div 2 ^ k; rest = P mod 2 ^ k
      in if 2 * rest < 2 ^ k then q
         else if 2 * rest > 2 ^ k then q + 1
         else if even q then q else q + 1)"

definition double_times :: "double \<Rightarrow> nat \<Rightarrow> double" where
  "double_times d n =
     (let P = mant d * n; k = dropped_bits P
      in Double (round_half_even P k) (expo d + int k))"

text \<open>\<^verbatim>\<open>Math.floor\<close> of a double that is not negative; the result is a whole number.\<close>

definition double_floor :: "double \<Rightarrow> nat" where
  "double_floor d =
     (if 0 \<le> expo d then mant d * 2 ^ nat (expo d) else mant d div 2 ^ nat (- expo d))"

text \<open>
  \<^verbatim>\<open>moves[Math.floor(Math.random() * moves.length)]\<close>. The argument \<open>r\<close> is the value
  of \<^verbatim>\<open>Math.random()\<close>. An index outside the array reads \<^verbatim>\<open>undefined\<close> in
  JavaScript, which is \<open>None\<close> here.
\<close>

definition moves :: "Gesture list" where
  "moves = [ROCK, PAPER, SCISSORS]"

definition botMove :: "double \<Rightarrow> Gesture option" where
  "botMove r =
     (let i = double_floor (double_times r (length moves))
      in if i < length moves then Some (moves ! i) else None)"

text \<open>
  The callback of the 500 ms timeout, for the captured player gesture \<open>p\<close> and the bot
  move \<open>b\<close>. The timeout is one-shot, so its handle is no longer pending afterwards.
  \<^verbatim>\<open>setScore\<close> is called with an updater, which reads the current score.
\<close>

definition timeout_callback :: "Gesture \<Rightarrow> Gesture \<Rightarrow> App \<Rightarrow> App" where
  "timeout_callback p b s =
     (let s1 = s\<lparr>timeout := None, botGesture := b, gameState := RESULT\<rparr>;
          w = determineWinner p b;
          s2 = (if w = Winner_invalid then s1
                else if w = Winner_player
                  then s1\<lparr>score := (score s1)\<lparr>player := player (score s1) + 1\<rparr>\<rparr>
                else if w = Winner_bot
                  then s1\<lparr>score := (score s1)\<lparr>bot := bot (score s1) + 1\<rparr>\<rparr>
                else s1)
      in s2\<lparr>gameResult := Some (round_result p b)\<rparr>)"

subsection \<open>Effects\<close>

text \<open>
  React runs an effect after a render when one of its dependencies differs from the
  previous render: first the cleanup that the previous run returned, then the body.
  In \<open>effects prev cur\<close>, \<open>prev\<close> is the previously rendered state, \<open>cur\<close> the state
  just rendered (the values the effect bodies read), and the result is \<open>cur\<close> with the
  state updates that the bodies requested and the timers they cleared or started.

  \<^item> countdown effect, dependency \<^verbatim>\<open>[gameState]\<close>: the cleanup clears the interval; in
    \<^verbatim>\<open>COUNTDOWN\<close> the body sets \<^verbatim>\<open>botGesture\<close> to \<^verbatim>\<open>NONE\<close>, \<^verbatim>\<open>gameResult\<close> to
    \<^verbatim>\<open>null\<close> and starts a new interval;
  \<^item> playing effect, dependencies \<^verbatim>\<open>[gameState, playerGesture, determineWinner]\<close>
    (the last one never changes): the cleanup clears the timeout; in \<^verbatim>\<open>PLAYING\<close> the
    body starts a new timeout whose callback closes over the rendered
    \<^verbatim>\<open>playerGesture\<close>;
  \<^item> score effect, dependency \<^verbatim>\<open>[score]\<close>: requests \<^verbatim>\<open>GAME_OVER\<close> when a component
    has reached \<^verbatim>\<open>WINNING_SCORE\<close>. Every \<^verbatim>\<open>setScore\<close> of the component either
    changes the value or stores zeros, so comparing values agrees with React's
    comparison of object identity wherever the body does something.
\<close>

definition countdown_effect :: "App \<Rightarrow> App \<Rightarrow> App \<Rightarrow> App" where
  "countdown_effect prev cur acc =
     (if gameState prev \<noteq> gameState cur
      then (if gameState cur = COUNTDOWN
            then acc\<lparr>botGesture := NONE, gameResult := None, timer := True\<rparr>
            else acc\<lparr>timer := False\<rparr>)
      else acc)"

definition playing_effect :: "App \<Rightarrow> App \<Rightarrow> App \<Rightarrow> App" where
  "playing_effect prev cur acc =
     (if gameState prev \<noteq> gameState cur \<or> playerGesture prev \<noteq> playerGesture cur
      then (if gameState cur = PLAYING
            then acc\<lparr>timeout := Some (playerGesture cur)\<rparr>
            else acc\<lparr>timeout := None\<rparr>)
      else acc)"

definition score_effect :: "App \<Rightarrow> App \<Rightarrow> App \<Rightarrow> App" where
  "score_effect prev cur acc =
     (if score prev \<noteq> score cur
      then (if player (score cur) \<ge> WINNING_SCORE \<or> bot (score cur) \<ge> WINNING_SCORE
            then acc\<lparr>gameState := GAME_OVER\<rparr>
            else acc)
      else acc)"

definition effects :: "App \<Rightarrow> App \<Rightarrow> App" where
  "effects prev cur =
     score_effect prev cur (playing_effect prev cur (countdown_effect prev cur cur))"

text \<open>
  A state update requested by an effect causes another render, after which the effects
  run again. \<open>commit prev new\<close> renders \<open>new\<close> after \<open>prev\<close> and runs two rounds of
  effects; lemma \<open>commit_settled\<close> below shows that a third round never changes
  anything, so this is the state in which React comes to rest.
\<close>

definition commit :: "App \<Rightarrow> App \<Rightarrow> App" where
  "commit prev new = effects new (effects prev new)"

subsection \<open>Events\<close>

text \<open>
  The controls that call the handlers, from the JSX of the component (inside the branch
  rendered when there is no error and the model is loaded):
  \<^item> \<^verbatim>\<open>Start Game\<close> is rendered when \<^verbatim>\<open>gameState === GameState.IDLE\<close>, and
    \<^verbatim>\<open>Try Again\<close>/\<^verbatim>\<open>Next Round\<close> when
    \<^verbatim>\<open>gameState === GameState.RESULT && gameResult\<close>; both call \<^verbatim>\<open>playRound\<close>;
  \<^item> \<^verbatim>\<open>Play Again\<close> is rendered when \<^verbatim>\<open>gameState === GameState.GAME_OVER\<close> and
    calls \<^verbatim>\<open>resetGame\<close>.
\<close>

definition playRound_button :: "App \<Rightarrow> bool" where
  "playRound_button s \<longleftrightarrow>
     gameState s = IDLE \<or> (gameState s = RESULT \<and> gameResult s \<noteq> None)"

definition resetGame_button :: "App \<Rightarrow> bool" where
  "resetGame_button s \<longleftrightarrow> gameState s = GAME_OVER"

text \<open>
  Everything that can happen to the component:
  \<^item> a click on a control that calls \<^verbatim>\<open>playRound\<close>, or on the one that calls
    \<^verbatim>\<open>resetGame\<close>;
  \<^item> the countdown interval fires;
  \<^item> the capture timeout fires, \<^verbatim>\<open>Math.random()\<close> returning \<open>r\<close>;
  \<^item> the detection loop stores the gesture \<open>g\<close> that \<^verbatim>\<open>visionService.detect\<close>
    returned.
\<close>

datatype Event =
    Click_playRound
  | Click_resetGame
  | Interval_fires
  | Timeout_fires double
  | Detect Gesture

text \<open>
  One event, run to completion: the handler or callback, then the render and its
  effects. The result is \<open>None\<close> when the event cannot happen in the state: the control
  is not rendered, the timer is not live, or \<open>r\<close> is not a value of
  \<^verbatim>\<open>Math.random()\<close>.
\<close>

fun step :: "Event \<Rightarrow> App \<Rightarrow> App option" where
  "step Click_playRound s =
     (if playRound_button s then Some (commit s (playRound s)) else None)"
| "step Click_resetGame s =
     (if resetGame_button s then Some (commit s (resetGame s)) else None)"
| "step Interval_fires s =
     (if timer s then Some (commit s (interval_callback s)) else None)"
| "step (Timeout_fires r) s =
     (case timeout s of
        None \<Rightarrow> None
      | Some p \<Rightarrow>
          (if random_value r
           then (case botMove r of
                   None \<Rightarrow> None
                 | Some b \<Rightarrow> Some (commit s (timeout_callback p b s)))
           else None))"
| "step (Detect g) s = Some (commit s (s\<lparr>playerGesture := g\<rparr>))"

text \<open>A sequence of events; \<open>None\<close> as soon as one of them cannot happen.\<close>

fun run :: "Event list \<Rightarrow> App \<Rightarrow> App option" where
  "run [] s = Some s"
| "run (e # es) s = (case step e s of None \<Rightarrow> None | Some s' \<Rightarrow> run es s')"

text \<open>The states a sequence of events passes through, the starting state first.\<close>

fun trace :: "Event list \<Rightarrow> App \<Rightarrow> App list" where
  "trace [] s = [s]"
| "trace (e # es) s = s # (case step e s of None \<Rightarrow> [] | Some s' \<Rightarrow> trace es s')"

text \<open>The states of a session: what the events can make of the initial state.\<close>

inductive reachable :: "App \<Rightarrow> bool" where
  reachable_initial: "reachable initial"
| reachable_step: "reachable s \<Longrightarrow> step e s = Some s' \<Longrightarrow> reachable s'"

text \<open>
  What holds of every state of a session, as one predicate: which timer is live in
  which phase (and what the pending timeout captured), the range of \<open>countdown\<close>, the
  range of the score, and the phases in which \<open>botGesture\<close> and \<open>gameResult\<close> are
  cleared.
\<close>

definition session_inv :: "App \<Rightarrow> bool" where
  "session_inv s \<longleftrightarrow>
     (timer s \<longleftrightarrow> gameState s = COUNTDOWN) \<and>
     timeout s = (if gameState s = PLAYING then Some (playerGesture s) else None) \<and>
     1 \<le> countdown s \<and> countdown s \<le> 3 \<and>
     (gameState s \<noteq> COUNTDOWN \<longrightarrow> countdown s = 3) \<and>
     0 \<le> player (score s) \<and> 0 \<le> bot (score s) \<and>
     (gameState s = GAME_OVER \<longleftrightarrow>
        player (score s) \<ge> WINNING_SCORE \<or> bot (score s) \<ge> WINNING_SCORE) \<and>
     (gameState s = IDLE \<longrightarrow> score s = \<lparr>player = 0, bot = 0\<rparr>) \<and>
     (botGesture s = NONE \<longleftrightarrow> gameState s \<in> {IDLE, COUNTDOWN, PLAYING}) \<and>
     (gameResult s = None \<longleftrightarrow> gameState s \<in> {IDLE, COUNTDOWN, PLAYING})"

section \<open>Gesture detection (VisionService.detect)\<close>

text \<open>
  One entry of the recognizer's result: the fields \<^verbatim>\<open>categoryName\<close> and \<^verbatim>\<open>score\<close>
  (the selector of the latter is \<open>category_score\<close>, \<open>score\<close> being a field of
  \<^typ>\<open>App\<close>).
\<close>

datatype Category = Category (categoryName: string) (category_score: real)

text \<open>
  The recognizer is an external library. What matters of it is what the call
  \<^verbatim>\<open>recognizeForVideo(video, performance.now())\<close> does on the frame at hand: it throws,
  or it returns a result whose \<^verbatim>\<open>gestures\<close> field is a list of lists of categories.
  The field \<^verbatim>\<open>gestureRecognizer\<close> of the service is \<^verbatim>\<open>null\<close> (\<open>None\<close>) until
  \<^verbatim>\<open>initialize\<close> has finished.
\<close>

datatype Recognition = Throws | Recognized "Category list list"

datatype js_exception = Recognizer_exception | TypeError

record Detection =
  gesture :: Gesture
  confidence :: real

text \<open>
  The body of the \<^verbatim>\<open>try\<close> block. \<open>Inl\<close> is an exception thrown inside it, \<open>Inr None\<close>
  is the block running to its end, \<open>Inr (Some d)\<close> is \<^verbatim>\<open>return d\<close>.
  \<^verbatim>\<open>result.gestures[0][0]\<close> is \<^verbatim>\<open>undefined\<close> when the first list is empty, and reading
  \<^verbatim>\<open>categoryName\<close> of it throws a \<^verbatim>\<open>TypeError\<close>.
\<close>

definition detect_try :: "Recognition \<Rightarrow> js_exception + Detection option" where
  "detect_try rc =
     (case rc of
        Throws \<Rightarrow> Inl Recognizer_exception
      | Recognized gestures \<Rightarrow>
          (if length gestures > 0
           then (case hd gestures of
                   [] \<Rightarrow> Inl TypeError
                 | topGesture # _ \<Rightarrow>
                     (let name = categoryName topGesture;
                          score = category_score topGesture
                      in if name = ''Closed_Fist''
                           then Inr (Some \<lparr>gesture = ROCK, confidence = score\<rparr>)
                         else if name = ''Open_Palm''
                           then Inr (Some \<lparr>gesture = PAPER, confidence = score\<rparr>)
                         else if name = ''Victory''
                           then Inr (Some \<lparr>gesture = SCISSORS, confidence = score\<rparr>)
                         else Inr (Some \<lparr>gesture = NONE, confidence = score\<rparr>)))
           else Inr None))"

text \<open>
  \<^verbatim>\<open>detect(video)\<close>, for the service's \<^verbatim>\<open>gestureRecognizer\<close> field and the video's
  \<^verbatim>\<open>currentTime\<close>. \<open>Inl\<close> would be an exception leaving the method. The \<^verbatim>\<open>catch\<close>
  clause logs a warning and falls through to the final \<^verbatim>\<open>return\<close>.
\<close>

definition detect :: "Recognition option \<Rightarrow> real \<Rightarrow> js_exception + Detection" where
  "detect gestureRecognizer currentTime =
     (case gestureRecognizer of
        None \<Rightarrow> Inr \<lparr>gesture = NONE, confidence = 0\<rparr>
      | Some rc \<Rightarrow>
          (if currentTime = 0 then Inr \<lparr>gesture = NONE, confidence = 0\<rparr>
           else (case detect_try rc of
                   Inl e \<Rightarrow> Inr \<lparr>gesture = NONE, confidence = 0\<rparr>
                 | Inr (Some d) \<Rightarrow> Inr d
                 | Inr None \<Rightarrow> Inr \<lparr>gesture = NONE, confidence = 0\<rparr>)))"

section \<open>A sample session\<close>

text \<open>
  A round that the player wins: the round is started, the detection loop reports a
  fist, the countdown runs out, and the capture timer fires with \<^verbatim>\<open>Math.random()\<close>
  returning 0.75 (\<open>Double 3 (- 2)\<close>), which selects scissors for the bot. \<open>to_playing\<close> is the round up to
  the capture. \<open>ex_playing n\<close> and \<open>ex_result g n\<close> are the states just before and
  just after the capture in such a round, for a player score of \<open>n\<close>.
\<close>

definition won_round :: "Event list" where
  "won_round =
     [Click_playRound, Detect ROCK, Interval_fires, Interval_fires, Interval_fires,
      Timeout_fires (Double 3 (- 2))]"

definition to_playing :: "Event list" where
  "to_playing =
     [Click_playRound, Detect ROCK, Interval_fires, Interval_fires, Interval_fires]"

definition ex_playing :: "int \<Rightarrow> App" where
  "ex_playing n =
     \<lparr>gameState = PLAYING, score = \<lparr>player = n, bot = 0\<rparr>, playerGesture = ROCK,
      botGesture = NONE, gameResult = None, countdown = 3, timer = False,
      timeout = Some ROCK\<rparr>"

definition ex_result :: "GameState \<Rightarrow> int \<Rightarrow> App" where
  "ex_result g n =
     \<lparr>gameState = g, score = \<lparr>player = n, bot = 0\<rparr>, playerGesture = ROCK,
      botGesture = SCISSORS,
      gameResult = Some \<lparr>winner = Winner_player, message = ''You Win!''\<rparr>,
      countdown = 3, timer = False, timeout = None\<rparr>"

section \<open>Basic facts\<close>

lemmas engine_defs =
  commit_def effects_def countdown_effect_def playing_effect_def score_effect_def
  playRound_def resetGame_def interval_callback_def timeout_callback_def
  playRound_button_def resetGame_button_def WINNING_SCORE_def

lemmas resolve_defs = determineWinner_def result_message_def round_result_def

text \<open>
  After the two rounds of effects in \<open>commit\<close>, another render changes no dependency:
  a further round of effects leaves the state as it is.
\<close>

lemma effects_keeps [simp]:
  "score (effects prev cur) = score cur"
  "playerGesture (effects prev cur) = playerGesture cur"
  by (simp_all add: effects_def countdown_effect_def playing_effect_def score_effect_def)

lemma effects_gameState:
  "score prev = score cur \<Longrightarrow> gameState (effects prev cur) = gameState cur"
  by (simp add: effects_def countdown_effect_def playing_effect_def score_effect_def)

lemma effects_no_change:
  "gameState prev = gameState cur \<Longrightarrow> playerGesture prev = playerGesture cur \<Longrightarrow>
   score prev = score cur \<Longrightarrow> effects prev cur = cur"
  by (simp add: effects_def countdown_effect_def playing_effect_def score_effect_def)

lemma commit_settled: "effects (effects prev new) (commit prev new) = commit prev new"
  unfolding commit_def
  by (rule effects_no_change) (simp_all add: effects_gameState)

text \<open>The bot's move is one of the three entries of \<open>moves\<close>.\<close>

lemma botMove_in_moves: "botMove r = Some b \<Longrightarrow> b = ROCK \<or> b = PAPER \<or> b = SCISSORS"
proof -
  assume h: "botMove r = Some b"
  define i where "i = double_floor (double_times r (length moves))"
  from h have bound: "i < 3" and b: "b = moves ! i"
    by (auto simp: botMove_def i_def Let_def moves_def split: if_splits)
  from bound have "i = 0 \<or> i = 1 \<or> i = 2" by arith
  with b show ?thesis by (auto simp: moves_def)
qed

subsection \<open>The rounded product stays below 3\<close>

lemmas double_defs = random_value_def dropped_bits_def round_half_even_def double_times_def
  double_floor_def

text \<open>Rounding to the nearest adds at most half of the last kept bit.\<close>

lemma round_half_even_le: "2 * (2 ^ k * round_half_even P k) \<le> 2 * P + 2 ^ k"
proof -
  define D :: nat where "D = 2 ^ k"
  define q where "q = P div D"
  define rest where "rest = P mod D"
  have P: "P = D * q + rest" by (simp add: q_def rest_def)
  have "round_half_even P k \<le> (if 2 * rest < D then q else q + 1)"
    by (simp add: round_half_even_def Let_def D_def q_def rest_def)
  then have "D * round_half_even P k \<le> D * (if 2 * rest < D then q else q + 1)"
    by (rule mult_le_mono2)
  also have "2 * \<dots> \<le> 2 * P + D"
    by (simp add: P algebra_simps)
  finally show ?thesis by (simp add: D_def)
qed

lemma exponent_above:
  assumes "(2::nat) ^ 51 < m" and "m < 2 ^ n"
  shows "51 < n"
proof (rule ccontr)
  assume "\<not> 51 < n"
  then have "n \<le> 51" by simp
  then have "(2::nat) ^ n \<le> 2 ^ 51" by (intro power_increasing) simp_all
  with assms show False by linarith
qed

text \<open>
  For every value of \<^verbatim>\<open>Math.random()\<close> the index is 0, 1 or 2, also where the product
  is rounded up: the largest double below 1 gives the double just below 3.
\<close>

lemma floor_times_less:
  assumes "random_value d"
  shows "double_floor (double_times d 3) < 3"
proof (cases "mant d = 0")
  case True
  then show ?thesis
    by (simp add: double_times_def dropped_bits_def round_half_even_def double_floor_def
        Let_def)
next
  case False
  define m where "m = mant d"
  define n where "n = nat (- expo d)"
  define k where "k = dropped_bits (m * 3)"
  define m' where "m' = round_half_even (m * 3) k"
  from assms False have e: "expo d < 0" and mN: "m < 2 ^ n"
    by (simp_all add: random_value_def m_def n_def)
  have k2: "k \<le> 2" by (simp add: k_def dropped_bits_def)
  have big: "51 < n" if "k \<noteq> 0"
  proof -
    from that have "2 ^ 53 \<le> m * 3" by (simp add: k_def dropped_bits_def split: if_splits)
    then have "(2::nat) ^ 51 < m" by simp
    then show ?thesis using mN by (rule exponent_above)
  qed
  have kn: "k \<le> n" using big k2 by (cases "k = 0") simp_all
  have pow: "(2::nat) ^ n = 2 ^ k * 2 ^ (n - k)"
    using kn by (simp flip: power_add)
  have "2 * (2 ^ k * m') \<le> 2 * (m * 3) + 2 ^ k"
    unfolding m'_def by (rule round_half_even_le)
  moreover have "(2::nat) ^ k \<le> 4"
    using k2 power_increasing [of k 2 "2::nat"] by simp
  ultimately have "2 * (2 ^ k * m') < 6 * 2 ^ n" using mN by linarith
  then have "2 ^ k * m' < 2 ^ k * (3 * 2 ^ (n - k))" by (simp add: pow)
  then have less: "m' < 3 * 2 ^ (n - k)" by simp
  have neg: "\<not> 0 \<le> expo d + int k" if "k \<noteq> 0"
    using big [OF that] k2 e by (simp add: n_def)
  have neg': "\<not> 0 \<le> expo d + int k" using neg e by (cases "k = 0") simp_all
  have nk: "nat (- (expo d + int k)) = n - k" using e kn by (simp add: n_def)
  have "double_floor (double_times d 3) = m' div 2 ^ (n - k)"
    using neg' nk
    by (simp add: double_times_def double_floor_def Let_def m'_def k_def m_def)
  also have "\<dots> < 3" using less by (simp add: div_less_iff_less_mult)
  finally show ?thesis .
qed

lemma length_moves: "length moves = 3"
  by (simp add: moves_def)

lemma botMove_total:
  assumes "random_value d"
  shows "\<exists>b. botMove d = Some b"
  using floor_times_less [OF assms] by (simp add: botMove_def length_moves)

text \<open>
  Draws for each of the three moves, and the two doubles next to 1/3 and 2/3 whose
  product with 3 is rounded up to 1 and to 2.
\<close>

lemma botMove_examples:
  "botMove (Double 0 0) = Some ROCK"
  "botMove (Double 1 (- 1)) = Some PAPER"
  "botMove (Double 3 (- 2)) = Some SCISSORS"
  "botMove (Double 6004799503160661 (- 54)) = Some PAPER"
  "botMove (Double 6004799503160661 (- 53)) = Some SCISSORS"
  "botMove (Double 9007199254740991 (- 53)) = Some SCISSORS"
  by (simp_all add: botMove_def moves_def double_defs Let_def)

lemma random_value_examples:
  "random_value (Double 0 0)"
  "random_value (Double 1 (- 1))"
  "random_value (Double 3 (- 2))"
  "random_value (Double 6004799503160661 (- 54))"
  "random_value (Double 6004799503160661 (- 53))"
  "random_value (Double 9007199254740991 (- 53))"
  by (simp_all add: random_value_def)

subsection \<open>The fields of the state after the effects\<close>

lemma effects_fields:
  "gameState (effects p c) =
     (if score p \<noteq> score c \<and> (WINNING_SCORE \<le> player (score c) \<or> WINNING_SCORE \<le> bot (score c))
      then GAME_OVER else gameState c)"
  "timer (effects p c) = (if gameState p \<noteq> gameState c then gameState c = COUNTDOWN else timer c)"
  "timeout (effects p c) =
     (if gameState p \<noteq> gameState c \<or> playerGesture p \<noteq> playerGesture c
      then (if gameState c = PLAYING then Some (playerGesture c) else None) else timeout c)"
  "botGesture (effects p c) =
     (if gameState p \<noteq> gameState c \<and> gameState c = COUNTDOWN then NONE else botGesture c)"
  "gameResult (effects p c) =
     (if gameState p \<noteq> gameState c \<and> gameState c = COUNTDOWN then None else gameResult c)"
  "countdown (effects p c) = countdown c"
  by (auto simp: effects_def countdown_effect_def playing_effect_def score_effect_def)

lemma commit_fields:
  "gameState (commit p n) = gameState (effects p n)"
  "score (commit p n) = score n"
  "playerGesture (commit p n) = playerGesture n"
  "countdown (commit p n) = countdown n"
  "botGesture (commit p n) = botGesture (effects p n)"
  "gameResult (commit p n) = gameResult (effects p n)"
  "timer (commit p n) = (if gameState (effects p n) \<noteq> gameState n then False else timer (effects p n))"
  "timeout (commit p n) = (if gameState (effects p n) \<noteq> gameState n then None else timeout (effects p n))"
  unfolding commit_def
  by (auto simp: effects_fields)

subsection \<open>The invariant holds in every state of a session\<close>

lemmas handler_defs = playRound_def resetGame_def interval_callback_def timeout_callback_def
  playRound_button_def resetGame_button_def WINNING_SCORE_def

lemma inv_playRound:
  "session_inv s \<Longrightarrow> playRound_button s \<Longrightarrow> session_inv (commit s (playRound s))"
  unfolding session_inv_def
  by (cases "gameState s"; simp add: commit_fields effects_fields handler_defs)

lemma inv_resetGame:
  "session_inv s \<Longrightarrow> resetGame_button s \<Longrightarrow> session_inv (commit s (resetGame s))"
  unfolding session_inv_def
  by (cases "gameState s"; simp add: commit_fields effects_fields handler_defs)

lemma inv_interval:
  "session_inv s \<Longrightarrow> timer s \<Longrightarrow> session_inv (commit s (interval_callback s))"
  unfolding session_inv_def
  by (cases "gameState s"; simp add: commit_fields effects_fields handler_defs)

lemma inv_detect:
  "session_inv s \<Longrightarrow> session_inv (commit s (s\<lparr>playerGesture := g\<rparr>))"
  unfolding session_inv_def
  by (cases "gameState s"; simp add: commit_fields effects_fields handler_defs)


lemma score_inc_neq [simp]:
  "sc \<noteq> sc\<lparr>player := player sc + 1\<rparr>" "sc \<noteq> sc\<lparr>bot := bot sc + 1\<rparr>"
  by (cases sc; simp)+

lemma inv_timeout:
  "session_inv s \<Longrightarrow> timeout s = Some p \<Longrightarrow> b \<noteq> NONE \<Longrightarrow>
   session_inv (commit s (timeout_callback p b s))"
  unfolding session_inv_def
  by (cases "gameState s"; cases "determineWinner p b";
      simp add: commit_fields effects_fields handler_defs Let_def)

lemma inv_step: "session_inv s \<Longrightarrow> step e s = Some s' \<Longrightarrow> session_inv s'"
proof (cases e)
  case Click_playRound
  assume "session_inv s" "step e s = Some s'"
  with Click_playRound show ?thesis
    by (auto split: if_splits intro: inv_playRound)
next
  case Click_resetGame
  assume "session_inv s" "step e s = Some s'"
  with Click_resetGame show ?thesis
    by (auto split: if_splits intro: inv_resetGame)
next
  case Interval_fires
  assume "session_inv s" "step e s = Some s'"
  with Interval_fires show ?thesis
    by (auto split: if_splits intro: inv_interval)
next
  case (Timeout_fires r)
  assume "session_inv s" "step e s = Some s'"
  with Timeout_fires show ?thesis
    by (auto split: if_splits option.splits intro!: inv_timeout dest: botMove_in_moves)
next
  case (Detect g)
  assume "session_inv s" "step e s = Some s'"
  with Detect show ?thesis
    by (auto intro: inv_detect)
qed

lemma inv_initial: "session_inv initial"
  by (simp add: session_inv_def initial_def WINNING_SCORE_def)

lemma reachable_inv: "reachable s \<Longrightarrow> session_inv s"
  by (induction rule: reachable.induct) (auto intro: inv_initial inv_step)

lemma run_reachable: "reachable s \<Longrightarrow> run es s = Some s' \<Longrightarrow> reachable s'"
  by (induction es arbitrary: s) (auto split: option.splits intro: reachable_step)

subsection \<open>Sample states and how they are reached\<close>

lemmas eval_defs = engine_defs initial_def botMove_def moves_def double_defs resolve_defs
  Let_def

lemma run_append:
  "run (xs @ ys) s = (case run xs s of None \<Rightarrow> None | Some s' \<Rightarrow> run ys s')"
  by (induction xs arbitrary: s) (auto split: option.splits)

lemmas example_defs = to_playing_def won_round_def ex_playing_def ex_result_def

lemma first_round:
  "run to_playing initial = Some (ex_playing 0)"
  "step (Timeout_fires (Double 3 (- 2))) (ex_playing 0) = Some (ex_result RESULT 1)"
  by (simp_all add: example_defs eval_defs)

lemma second_round:
  "run to_playing (ex_result RESULT 1) = Some (ex_playing 1)"
  "step (Timeout_fires (Double 3 (- 2))) (ex_playing 1) = Some (ex_result RESULT 2)"
  by (simp_all add: example_defs eval_defs)

lemma third_round:
  "run to_playing (ex_result RESULT 2) = Some (ex_playing 2)"
  "step (Timeout_fires (Double 3 (- 2))) (ex_playing 2) = Some (ex_result GAME_OVER 3)"
  by (simp_all add: example_defs eval_defs)

lemma won_round_eq: "won_round = to_playing @ [Timeout_fires (Double 3 (- 2))]"
  by (simp add: example_defs)

lemma three_rounds:
  "run won_round initial = Some (ex_result RESULT 1)"
  "run (won_round @ won_round) initial = Some (ex_result RESULT 2)"
  "run (won_round @ won_round @ won_round) initial = Some (ex_result GAME_OVER 3)"
  by (simp_all add: won_round_eq run_append first_round second_round third_round
      del: step.simps)

lemma reachable_examples:
  "reachable (ex_playing 0)"
  "reachable (ex_result RESULT 1)"
  "reachable (ex_result GAME_OVER 3)"
  "reachable (ex_playing 2)"
  by (rule run_reachable [OF reachable_initial first_round(1)],
      rule run_reachable [OF reachable_initial three_rounds(1)],
      rule run_reachable [OF reachable_initial three_rounds(3)],
      rule run_reachable [OF run_reachable [OF reachable_initial three_rounds(2)]
        third_round(1)])

text \<open>The fields of the state after each kind of event.\<close>

lemmas step_fields = commit_fields effects_fields handler_defs

lemma idle_state:
  assumes "session_inv s" and "gameState s = IDLE"
  shows "s = initial\<lparr>playerGesture := playerGesture s\<rparr>"
  using assms by (cases s) (simp add: session_inv_def initial_def)

section \<open>Winner resolution\<close>

text \<open>
  Claim C1. For each of the 16 pairs of a player gesture \<open>p\<close> and a bot gesture \<open>b\<close>,
  the result that the capture callback stores is: \<^verbatim>\<open>'invalid'\<close> with the message
  "No Hand Detected" when \<open>p\<close> is \<open>NONE\<close>; otherwise \<^verbatim>\<open>'draw'\<close> with "Draw!" when
  \<open>p = b\<close>; otherwise \<^verbatim>\<open>'player'\<close> with "You Win!" when the pair is rock against
  scissors, paper against rock or scissors against paper; otherwise \<^verbatim>\<open>'bot'\<close> with
  "Bot Wins!". The winner is \<^verbatim>\<open>'invalid'\<close> exactly when \<open>p\<close> is \<open>NONE\<close>.
\<close>

theorem determineWinner_table:
  "round_result p b =
     (if p = NONE then \<lparr>winner = Winner_invalid, message = ''No Hand Detected''\<rparr>
      else if p = b then \<lparr>winner = Winner_draw, message = ''Draw!''\<rparr>
      else if (p, b) \<in> {(ROCK, SCISSORS), (PAPER, ROCK), (SCISSORS, PAPER)}
        then \<lparr>winner = Winner_player, message = ''You Win!''\<rparr>
      else \<lparr>winner = Winner_bot, message = ''Bot Wins!''\<rparr>)
   \<and> (winner (round_result p b) = Winner_invalid \<longleftrightarrow> p = NONE)
   \<and> gameResult (timeout_callback p b s) = Some (round_result p b)"
  by (cases p; cases b; simp add: resolve_defs timeout_callback_def Let_def)

text \<open>The table of all 16 pairs, row by row.\<close>

theorem determineWinner_table_witness:
  "map (\<lambda>(p, b). (winner (round_result p b), message (round_result p b)))
     [(NONE, NONE), (NONE, ROCK), (NONE, PAPER), (NONE, SCISSORS),
      (ROCK, NONE), (ROCK, ROCK), (ROCK, PAPER), (ROCK, SCISSORS),
      (PAPER, NONE), (PAPER, ROCK), (PAPER, PAPER), (PAPER, SCISSORS),
      (SCISSORS, NONE), (SCISSORS, ROCK), (SCISSORS, PAPER), (SCISSORS, SCISSORS)]
   = [(Winner_invalid, ''No Hand Detected''), (Winner_invalid, ''No Hand Detected''),
      (Winner_invalid, ''No Hand Detected''), (Winner_invalid, ''No Hand Detected''),
      (Winner_bot, ''Bot Wins!''), (Winner_draw, ''Draw!''),
      (Winner_bot, ''Bot Wins!''), (Winner_player, ''You Win!''),
      (Winner_bot, ''Bot Wins!''), (Winner_player, ''You Win!''),
      (Winner_draw, ''Draw!''), (Winner_bot, ''Bot Wins!''),
      (Winner_bot, ''Bot Wins!''), (Winner_bot, ''Bot Wins!''),
      (Winner_player, ''You Win!''), (Winner_draw, ''Draw!'')]"
  using determineWinner_table [of NONE NONE] determineWinner_table [of NONE ROCK]
    determineWinner_table [of NONE PAPER] determineWinner_table [of NONE SCISSORS]
    determineWinner_table [of ROCK NONE] determineWinner_table [of ROCK ROCK]
    determineWinner_table [of ROCK PAPER] determineWinner_table [of ROCK SCISSORS]
    determineWinner_table [of PAPER NONE] determineWinner_table [of PAPER ROCK]
    determineWinner_table [of PAPER PAPER] determineWinner_table [of PAPER SCISSORS]
    determineWinner_table [of SCISSORS NONE] determineWinner_table [of SCISSORS ROCK]
    determineWinner_table [of SCISSORS PAPER] determineWinner_table [of SCISSORS SCISSORS]
  by simp

section \<open>The end of a game\<close>

text \<open>
  Claim C2. In every state of a session, a score component that has reached
  \<open>WINNING_SCORE\<close> means that the phase is \<open>GAME_OVER\<close>. In \<open>GAME_OVER\<close> no round
  can be started (the controls that call \<^verbatim>\<open>playRound\<close> are not rendered), and every
  event other than the click on \<^verbatim>\<open>Play Again\<close> leaves the phase \<open>GAME_OVER\<close> and the
  score as it is.
\<close>

theorem game_over_until_reset:
  assumes "reachable s"
  shows "(player (score s) \<ge> WINNING_SCORE \<or> bot (score s) \<ge> WINNING_SCORE
            \<longrightarrow> gameState s = GAME_OVER)
       \<and> (gameState s = GAME_OVER \<longrightarrow>
            step Click_playRound s = None
          \<and> (\<forall>e s'. e \<noteq> Click_resetGame \<longrightarrow> step e s = Some s' \<longrightarrow>
                 gameState s' = GAME_OVER \<and> score s' = score s))"
proof -
  from assms have inv: "session_inv s" by (rule reachable_inv)
  have threshold: "player (score s) \<ge> WINNING_SCORE \<or> bot (score s) \<ge> WINNING_SCORE
      \<longrightarrow> gameState s = GAME_OVER"
    using inv by (simp add: session_inv_def)
  have frozen: "gameState s' = GAME_OVER \<and> score s' = score s"
    if over: "gameState s = GAME_OVER" and e: "e \<noteq> Click_resetGame"
      and st: "step e s = Some s'" for e s'
  proof -
    from inv over have off: "\<not> timer s" "timeout s = None"
      by (simp_all add: session_inv_def)
    show ?thesis
    proof (cases e)
      case Click_playRound
      with st over show ?thesis by (simp add: playRound_button_def)
    next
      case Click_resetGame
      with e show ?thesis by simp
    next
      case Interval_fires
      with st off show ?thesis by simp
    next
      case (Timeout_fires r)
      with st off show ?thesis by simp
    next
      case (Detect g)
      with st have "s' = commit s (s\<lparr>playerGesture := g\<rparr>)" by simp
      with over show ?thesis by (simp add: step_fields)
    qed
  qed
  have no_start: "gameState s = GAME_OVER \<longrightarrow> step Click_playRound s = None"
    by (simp add: playRound_button_def)
  from threshold frozen no_start show ?thesis by blast
qed

text \<open>
  The state after three rounds won by the player: a start of a round is refused, and a
  new reading of the detection loop changes neither the phase nor the score.
\<close>

theorem game_over_until_reset_witness:
  "reachable (ex_result GAME_OVER 3)
   \<and> score (ex_result GAME_OVER 3) = \<lparr>player = 3, bot = 0\<rparr>
   \<and> gameState (ex_result GAME_OVER 3) = GAME_OVER
   \<and> step Click_playRound (ex_result GAME_OVER 3) = None
   \<and> step (Detect PAPER) (ex_result GAME_OVER 3) =
       Some ((ex_result GAME_OVER 3)\<lparr>playerGesture := PAPER\<rparr>)"
  using game_over_until_reset [OF reachable_examples(3)] reachable_examples(3)
  by (simp add: example_defs eval_defs)

section \<open>The score\<close>

text \<open>
  Claim C3. When the capture timer fires, the score changes according to the stored
  result: a win of the player adds one to \<open>player\<close> and leaves \<open>bot\<close>, a win of the bot
  adds one to \<open>bot\<close> and leaves \<open>player\<close>, a draw and an invalid round leave the score
  as it is. No other event changes the score, except the click on \<^verbatim>\<open>Play Again\<close>,
  which sets it to zero. So both components are non-negative in every state of a session
  and never decrease except by that click.
\<close>

theorem score_changes_only_on_win:
  assumes "reachable s" and "step e s = Some s'"
  shows "(\<forall>r. e = Timeout_fires r \<longrightarrow>
            (\<exists>res. gameResult s' = Some res \<and>
               score s' =
                 (case winner res of
                    Winner_player \<Rightarrow> (score s)\<lparr>player := player (score s) + 1\<rparr>
                  | Winner_bot \<Rightarrow> (score s)\<lparr>bot := bot (score s) + 1\<rparr>
                  | Winner_draw \<Rightarrow> score s
                  | Winner_invalid \<Rightarrow> score s)))
       \<and> ((\<forall>r. e \<noteq> Timeout_fires r) \<longrightarrow> e \<noteq> Click_resetGame \<longrightarrow> score s' = score s)
       \<and> (e = Click_resetGame \<longrightarrow> score s' = \<lparr>player = 0, bot = 0\<rparr>)
       \<and> (e \<noteq> Click_resetGame \<longrightarrow>
            player (score s) \<le> player (score s') \<and> bot (score s) \<le> bot (score s'))
       \<and> 0 \<le> player (score s) \<and> 0 \<le> bot (score s)
       \<and> 0 \<le> player (score s') \<and> 0 \<le> bot (score s')"
proof -
  from assms have "reachable s'" by (rule reachable_step)
  then have "session_inv s'" by (rule reachable_inv)
  then have nonneg': "0 \<le> player (score s') \<and> 0 \<le> bot (score s')"
    by (simp add: session_inv_def)
  from assms(1) have "session_inv s" by (rule reachable_inv)
  then have nonneg: "0 \<le> player (score s) \<and> 0 \<le> bot (score s)"
    by (simp add: session_inv_def)
  show ?thesis
  proof (cases e)
    case Click_playRound
    with assms(2) have "s' = commit s (playRound s)" by (simp split: if_splits)
    then have "score s' = score s" by (simp add: step_fields)
    with Click_playRound nonneg nonneg' show ?thesis by simp
  next
    case Click_resetGame
    with assms(2) have "s' = commit s (resetGame s)" by (simp split: if_splits)
    then have "score s' = \<lparr>player = 0, bot = 0\<rparr>" by (simp add: step_fields)
    with Click_resetGame nonneg nonneg' show ?thesis by simp
  next
    case Interval_fires
    with assms(2) have "s' = commit s (interval_callback s)" by (simp split: if_splits)
    then have "score s' = score s" by (simp add: step_fields)
    with Interval_fires nonneg nonneg' show ?thesis by simp
  next
    case (Detect g)
    with assms(2) have "s' = commit s (s\<lparr>playerGesture := g\<rparr>)" by simp
    then have "score s' = score s" by (simp add: step_fields)
    with Detect nonneg nonneg' show ?thesis by simp
  next
    case (Timeout_fires r)
    with assms(2) obtain p b where s': "s' = commit s (timeout_callback p b s)"
      by (auto split: option.splits if_splits)
    have res: "gameResult s' = Some (round_result p b)"
      unfolding s' by (simp add: step_fields Let_def)
    have sc: "score s' =
        (case determineWinner p b of
           Winner_player \<Rightarrow> (score s)\<lparr>player := player (score s) + 1\<rparr>
         | Winner_bot \<Rightarrow> (score s)\<lparr>bot := bot (score s) + 1\<rparr>
         | Winner_draw \<Rightarrow> score s
         | Winner_invalid \<Rightarrow> score s)"
      unfolding s' by (cases "determineWinner p b"; simp add: step_fields Let_def)
    have mono: "player (score s) \<le> player (score s') \<and> bot (score s) \<le> bot (score s')"
      unfolding sc by (cases "determineWinner p b"; simp)
    from res sc have "\<exists>res. gameResult s' = Some res \<and>
               score s' =
                 (case winner res of
                    Winner_player \<Rightarrow> (score s)\<lparr>player := player (score s) + 1\<rparr>
                  | Winner_bot \<Rightarrow> (score s)\<lparr>bot := bot (score s) + 1\<rparr>
                  | Winner_draw \<Rightarrow> score s
                  | Winner_invalid \<Rightarrow> score s)"
      by (simp add: round_result_def)
    with Timeout_fires mono nonneg nonneg' show ?thesis by simp
  qed
qed

text \<open>
  The capture of the first sample round: the player's fist beats the bot's scissors and
  the score goes from 0:0 to 1:0.
\<close>

theorem score_changes_only_on_win_witness:
  "reachable (ex_playing 0)
   \<and> step (Timeout_fires (Double 3 (- 2))) (ex_playing 0) = Some (ex_result RESULT 1)
   \<and> gameResult (ex_result RESULT 1) =
       Some \<lparr>winner = Winner_player, message = ''You Win!''\<rparr>
   \<and> score (ex_playing 0) = \<lparr>player = 0, bot = 0\<rparr>
   \<and> score (ex_result RESULT 1) = \<lparr>player = 1, bot = 0\<rparr>"
  using score_changes_only_on_win [OF reachable_examples(1) first_round(2)]
    reachable_examples(1) first_round(2)
  by (simp add: example_defs)

section \<open>The countdown\<close>

text \<open>
  Claim C4, as stated, asks that \<open>countdown\<close> decreases to 0 before the phase leaves
  \<open>COUNTDOWN\<close>. It does not: from the initial state, a click on \<^verbatim>\<open>Start Game\<close> and
  three ticks of the interval show the values 3, 2 and 1 in \<open>COUNTDOWN\<close>, and the third
  tick, which finds the value 1, moves to \<open>PLAYING\<close> and stores 3. The value 0 never
  occurs.
\<close>

theorem countdown_never_zero_counterexample:
  "map (\<lambda>s. (gameState s, countdown s))
     (trace [Click_playRound, Interval_fires, Interval_fires, Interval_fires] initial)
   = [(IDLE, 3), (COUNTDOWN, 3), (COUNTDOWN, 2), (COUNTDOWN, 1), (PLAYING, 3)]
   \<and> 0 \<notin> set (map countdown
         (trace [Click_playRound, Interval_fires, Interval_fires, Interval_fires] initial))"
  by (simp add: eval_defs)

text \<open>
  Claim C4, amended. In every state of a session \<open>countdown\<close> is 3 outside
  \<open>COUNTDOWN\<close> (where it is not displayed) and 1, 2 or 3 inside. Starting a round
  enters \<open>COUNTDOWN\<close> with the value 3. In \<open>COUNTDOWN\<close>, a tick of the interval that
  finds the value 1 moves to \<open>PLAYING\<close> and stores 3; every other tick subtracts one and
  stays in \<open>COUNTDOWN\<close>; every other event that can happen leaves phase and value as
  they are. So the phase leaves \<open>COUNTDOWN\<close> only from the value 1, and the value is
  never 0.
\<close>

theorem countdown_range:
  assumes "reachable s"
  shows "(gameState s \<noteq> COUNTDOWN \<longrightarrow> countdown s = 3)
       \<and> (gameState s = COUNTDOWN \<longrightarrow> countdown s \<in> {1, 2, 3})
       \<and> (\<forall>s'. step Click_playRound s = Some s' \<longrightarrow>
             gameState s' = COUNTDOWN \<and> countdown s' = 3)
       \<and> (\<forall>e s'. gameState s = COUNTDOWN \<longrightarrow> step e s = Some s' \<longrightarrow>
             (if e = Interval_fires \<and> countdown s = 1
              then gameState s' = PLAYING \<and> countdown s' = 3
              else gameState s' = COUNTDOWN \<and>
                   countdown s' = (if e = Interval_fires then countdown s - 1 else countdown s)))"
proof -
  from assms have inv: "session_inv s" by (rule reachable_inv)
  then have range: "1 \<le> countdown s" "countdown s \<le> 3"
    and rest: "gameState s \<noteq> COUNTDOWN \<longrightarrow> countdown s = 3"
    and below: "gameState s \<noteq> GAME_OVER \<longrightarrow>
      \<not> WINNING_SCORE \<le> player (score s) \<and> \<not> WINNING_SCORE \<le> bot (score s)"
    by (simp_all add: session_inv_def)
  from range have in_range: "countdown s \<in> {1, 2, 3}" by auto
  have start: "gameState s' = COUNTDOWN \<and> countdown s' = 3"
    if "step Click_playRound s = Some s'" for s'
  proof -
    from that have s': "s' = commit s (playRound s)" and "playRound_button s"
      by (simp_all split: if_splits)
    then have "gameState s \<noteq> GAME_OVER" by (auto simp: playRound_button_def)
    with below show ?thesis unfolding s' by (simp add: step_fields)
  qed
  have leave: "if e = Interval_fires \<and> countdown s = 1
              then gameState s' = PLAYING \<and> countdown s' = 3
              else gameState s' = COUNTDOWN \<and>
                   countdown s' = (if e = Interval_fires then countdown s - 1 else countdown s)"
    if cd: "gameState s = COUNTDOWN" and st: "step e s = Some s'" for e s'
  proof -
    from inv cd have off: "timeout s = None" by (simp add: session_inv_def)
    from below cd have low: "\<not> WINNING_SCORE \<le> player (score s)"
      "\<not> WINNING_SCORE \<le> bot (score s)" by simp_all
    show ?thesis
    proof (cases e)
      case Click_playRound
      with st cd show ?thesis by (simp add: playRound_button_def)
    next
      case Click_resetGame
      with st cd show ?thesis by (simp add: resetGame_button_def)
    next
      case Interval_fires
      with st have s': "s' = commit s (interval_callback s)" by (simp split: if_splits)
      from range cd low show ?thesis unfolding s' Interval_fires
        by (simp add: step_fields)
    next
      case (Timeout_fires r)
      with st off show ?thesis by simp
    next
      case (Detect g)
      with st have s': "s' = commit s (s\<lparr>playerGesture := g\<rparr>)" by simp
      from cd show ?thesis unfolding s' Detect by (simp add: step_fields)
    qed
  qed
  from rest in_range start leave show ?thesis by blast
qed

text \<open>
  The second round of the sample session, started from the result of the first.
\<close>

theorem countdown_range_witness:
  "reachable (ex_result RESULT 1)
   \<and> countdown (ex_result RESULT 1) = 3
   \<and> map (\<lambda>s. (gameState s, countdown s))
       (trace [Click_playRound, Interval_fires, Interval_fires, Interval_fires]
          (ex_result RESULT 1))
     = [(RESULT, 3), (COUNTDOWN, 3), (COUNTDOWN, 2), (COUNTDOWN, 1), (PLAYING, 3)]"
  using countdown_range [OF reachable_examples(2)] reachable_examples(2)
  by (simp add: example_defs eval_defs)

section \<open>A round\<close>

text \<open>
  Claim C5. From an idle state of a session, the click on \<^verbatim>\<open>Start Game\<close>, three ticks
  of the interval and the firing of the capture timer pass through the phases
  \<open>IDLE\<close>, \<open>COUNTDOWN\<close> (with the values 3, 2, 1), \<open>PLAYING\<close> and \<open>RESULT\<close>. The
  interval cannot fire a fourth time, the capture timer cannot fire before the third
  tick nor a second time, and no interval fires after the capture. In \<open>COUNTDOWN\<close> the
  interval is live, and its tick subtracts one and stays in \<open>COUNTDOWN\<close> when the value
  is above 1, and moves to \<open>PLAYING\<close> with the value 3 when the value is 1.
\<close>

theorem normal_round:
  assumes "reachable s" and "gameState s = IDLE" and "random_value r"
  shows "map (\<lambda>s. (gameState s, countdown s))
           (trace [Click_playRound, Interval_fires, Interval_fires, Interval_fires,
                   Timeout_fires r] s)
         = [(IDLE, 3), (COUNTDOWN, 3), (COUNTDOWN, 2), (COUNTDOWN, 1), (PLAYING, 3),
            (RESULT, 3)]
       \<and> run [Click_playRound, Interval_fires, Interval_fires, Interval_fires,
              Interval_fires] s = None
       \<and> run [Click_playRound, Interval_fires, Interval_fires, Timeout_fires r] s = None
       \<and> run [Click_playRound, Interval_fires, Interval_fires, Interval_fires,
              Timeout_fires r, Timeout_fires r] s = None
       \<and> run [Click_playRound, Interval_fires, Interval_fires, Interval_fires,
              Timeout_fires r, Interval_fires] s = None
       \<and> (\<forall>c. reachable c \<longrightarrow> gameState c = COUNTDOWN \<longrightarrow>
             (\<exists>c'. step Interval_fires c = Some c' \<and>
                (if countdown c > 1
                 then gameState c' = COUNTDOWN \<and> countdown c' = countdown c - 1
                 else countdown c = 1 \<and> gameState c' = PLAYING \<and> countdown c' = 3)))"
proof -
  from assms(1) have "session_inv s" by (rule reachable_inv)
  with assms(2) have s: "s = initial\<lparr>playerGesture := playerGesture s\<rparr>"
    by (rule idle_state [rotated])
  define g where "g = playerGesture s"
  from assms(3) obtain b where bm: "botMove r = Some b"
    using botMove_total by blast
  define s1 where "s1 = initial\<lparr>playerGesture := g, gameState := COUNTDOWN, timer := True\<rparr>"
  define s4 where "s4 = initial\<lparr>playerGesture := g, gameState := PLAYING, timeout := Some g\<rparr>"
  define s5 where "s5 = commit s4 (timeout_callback g b s4)"
  have s_eq: "s = initial\<lparr>playerGesture := g\<rparr>" using s by (simp add: g_def)
  have st1: "step Click_playRound s = Some s1"
    unfolding s_eq s1_def by (simp add: engine_defs initial_def)
  have st2: "step Interval_fires s1 = Some (s1\<lparr>countdown := 2\<rparr>)"
    unfolding s1_def by (simp add: engine_defs initial_def)
  have st3: "step Interval_fires (s1\<lparr>countdown := 2\<rparr>) = Some (s1\<lparr>countdown := 1\<rparr>)"
    unfolding s1_def by (simp add: engine_defs initial_def)
  have st4: "step Interval_fires (s1\<lparr>countdown := 1\<rparr>) = Some s4"
    unfolding s1_def s4_def by (simp add: engine_defs initial_def)
  have st5: "step (Timeout_fires r) s4 = Some s5"
    unfolding s5_def using assms(3) bm by (simp add: s4_def)
  have no_tick4: "step Interval_fires s4 = None"
    by (simp add: s4_def initial_def)
  have no_capture3: "step (Timeout_fires r) (s1\<lparr>countdown := 1\<rparr>) = None"
    by (simp add: s1_def initial_def)
  have f5: "gameState s5 = RESULT" "countdown s5 = 3" "\<not> timer s5" "timeout s5 = None"
    unfolding s5_def s4_def
    by (cases "determineWinner g b";
        simp add: step_fields initial_def Let_def)+
  then have no5: "step Interval_fires s5 = None" "step (Timeout_fires r) s5 = None"
    by simp_all
  have f: "gameState s = IDLE" "countdown s = 3" "gameState s1 = COUNTDOWN" "countdown s1 = 3"
    "gameState s4 = PLAYING" "countdown s4 = 3"
    by (simp_all add: s_eq s1_def s4_def initial_def)
  have phases: "map (\<lambda>s. (gameState s, countdown s))
           (trace [Click_playRound, Interval_fires, Interval_fires, Interval_fires,
                   Timeout_fires r] s)
         = [(IDLE, 3), (COUNTDOWN, 3), (COUNTDOWN, 2), (COUNTDOWN, 1), (PLAYING, 3),
            (RESULT, 3)]"
    by (simp add: st1 st2 st3 st4 st5 f f5 del: step.simps)
  have four: "run [Click_playRound, Interval_fires, Interval_fires, Interval_fires,
              Interval_fires] s = None"
    by (simp add: st1 st2 st3 st4 no_tick4 del: step.simps)
  have early: "run [Click_playRound, Interval_fires, Interval_fires, Timeout_fires r] s = None"
    by (simp add: st1 st2 st3 no_capture3 del: step.simps)
  have twice: "run [Click_playRound, Interval_fires, Interval_fires, Interval_fires,
              Timeout_fires r, Timeout_fires r] s = None"
    by (simp add: st1 st2 st3 st4 st5 no5 del: step.simps)
  have after: "run [Click_playRound, Interval_fires, Interval_fires, Interval_fires,
              Timeout_fires r, Interval_fires] s = None"
    by (simp add: st1 st2 st3 st4 st5 no5 del: step.simps)
  have tick: "\<exists>c'. step Interval_fires c = Some c' \<and>
                (if countdown c > 1
                 then gameState c' = COUNTDOWN \<and> countdown c' = countdown c - 1
                 else countdown c = 1 \<and> gameState c' = PLAYING \<and> countdown c' = 3)"
    if "reachable c" and cd: "gameState c = COUNTDOWN" for c
  proof -
    from that(1) have inv: "session_inv c" by (rule reachable_inv)
    with cd have live: "timer c" and range: "1 \<le> countdown c"
      and low: "\<not> WINNING_SCORE \<le> player (score c)" "\<not> WINNING_SCORE \<le> bot (score c)"
      by (simp_all add: session_inv_def)
    from live have "step Interval_fires c = Some (commit c (interval_callback c))" by simp
    moreover have "if countdown c > 1
        then gameState (commit c (interval_callback c)) = COUNTDOWN \<and>
             countdown (commit c (interval_callback c)) = countdown c - 1
        else countdown c = 1 \<and> gameState (commit c (interval_callback c)) = PLAYING \<and>
             countdown (commit c (interval_callback c)) = 3"
      using cd range low by (simp add: step_fields)
    ultimately show ?thesis by blast
  qed
  from phases four early twice after tick show ?thesis by blast
qed

text \<open>
  The round from the initial state, \<^verbatim>\<open>Math.random()\<close> returning 0.5
  (\<open>Double 1 (- 1)\<close>).
\<close>

theorem normal_round_witness:
  "reachable initial \<and> gameState initial = IDLE \<and> random_value (Double 1 (- 1))
   \<and> map (\<lambda>s. (gameState s, countdown s))
       (trace [Click_playRound, Interval_fires, Interval_fires, Interval_fires,
               Timeout_fires (Double 1 (- 1))] initial)
     = [(IDLE, 3), (COUNTDOWN, 3), (COUNTDOWN, 2), (COUNTDOWN, 1), (PLAYING, 3),
        (RESULT, 3)]"
proof -
  have idle: "gameState initial = IDLE" by (simp add: initial_def)
  have draw: "random_value (Double 1 (- 1))" by (rule random_value_examples(2))
  from normal_round [OF reachable_initial idle draw] reachable_initial idle draw
  show ?thesis by (simp del: step.simps trace.simps)
qed

section \<open>Starting a round\<close>

text \<open>
  The handler on its own moves to \<open>COUNTDOWN\<close> from any phase. What keeps it from
  running in the middle of a round is that no rendered control calls it then.
\<close>

lemma playRound_unguarded:
  "gameState (playRound s) = COUNTDOWN \<and> countdown (playRound s) = 3
   \<and> gameResult (playRound s) = None"
  by (simp add: playRound_def)

text \<open>
  Claim C6. In every state of a session a round can be started exactly in the phases
  \<open>IDLE\<close> and \<open>RESULT\<close>: in \<open>COUNTDOWN\<close>, \<open>PLAYING\<close> (and \<open>GAME_OVER\<close>) no control
  that calls \<^verbatim>\<open>playRound\<close> is rendered, so the intent cannot reach the handler and the
  state is not touched. The interval is live exactly in \<open>COUNTDOWN\<close> and the capture
  timer is pending exactly in \<open>PLAYING\<close>, so the two are never active together: rounds
  do not overlap. (The handler \<^verbatim>\<open>playRound\<close> itself tests nothing, as
  \<open>playRound_unguarded\<close> records; the guard is the conditional rendering of its
  buttons.)
\<close>

theorem playRound_only_between_rounds:
  assumes "reachable s"
  shows "(step Click_playRound s \<noteq> None \<longleftrightarrow> gameState s = IDLE \<or> gameState s = RESULT)
       \<and> (gameState s = COUNTDOWN \<or> gameState s = PLAYING \<longrightarrow>
            step Click_playRound s = None)
       \<and> (timer s \<longleftrightarrow> gameState s = COUNTDOWN)
       \<and> (timeout s \<noteq> None \<longleftrightarrow> gameState s = PLAYING)
       \<and> \<not> (timer s \<and> timeout s \<noteq> None)"
proof -
  from assms have inv: "session_inv s" by (rule reachable_inv)
  then have "gameState s = RESULT \<longrightarrow> gameResult s \<noteq> None"
    by (simp add: session_inv_def)
  then have start: "step Click_playRound s \<noteq> None \<longleftrightarrow>
      gameState s = IDLE \<or> gameState s = RESULT"
    by (auto simp: playRound_button_def)
  from inv have timers: "timer s \<longleftrightarrow> gameState s = COUNTDOWN"
    "timeout s \<noteq> None \<longleftrightarrow> gameState s = PLAYING"
    by (simp_all add: session_inv_def)
  from start timers show ?thesis by auto
qed

text \<open>
  The sample round just before the capture: starting a round is refused.
\<close>

theorem playRound_only_between_rounds_witness:
  "reachable (ex_playing 0)
   \<and> gameState (ex_playing 0) = PLAYING
   \<and> step Click_playRound (ex_playing 0) = None
   \<and> \<not> timer (ex_playing 0)"
  using playRound_only_between_rounds [OF reachable_examples(1)] reachable_examples(1)
  by (simp add: example_defs)

section \<open>The bot's gesture\<close>

text \<open>
  Claim C7, as stated, asks that \<open>botGesture\<close> is \<open>NONE\<close> in \<open>GAME_OVER\<close>. It is not:
  the capture that decides the game stores the bot's move, the score effect then moves
  to \<open>GAME_OVER\<close>, and nothing clears the move before \<^verbatim>\<open>resetGame\<close>. After three
  rounds won by the player with a fist against scissors, the phase is \<open>GAME_OVER\<close> and
  \<open>botGesture\<close> is \<open>SCISSORS\<close>.
\<close>

theorem botGesture_kept_in_game_over_counterexample:
  "run [Click_playRound, Detect ROCK, Interval_fires, Interval_fires, Interval_fires,
        Timeout_fires (Double 3 (- 2)),
        Click_playRound, Detect ROCK, Interval_fires, Interval_fires, Interval_fires,
        Timeout_fires (Double 3 (- 2)),
        Click_playRound, Detect ROCK, Interval_fires, Interval_fires, Interval_fires,
        Timeout_fires (Double 3 (- 2))] initial
   = Some \<lparr>gameState = GAME_OVER, score = \<lparr>player = 3, bot = 0\<rparr>, playerGesture = ROCK,
       botGesture = SCISSORS,
       gameResult = Some \<lparr>winner = Winner_player, message = ''You Win!''\<rparr>,
       countdown = 3, timer = False, timeout = None\<rparr>
   \<and> SCISSORS \<noteq> NONE"
  using three_rounds(3) by (simp add: example_defs del: run.simps)

text \<open>
  Claim C7, amended. In every state of a session \<open>botGesture\<close> is \<open>NONE\<close> in the
  phases \<open>IDLE\<close>, \<open>COUNTDOWN\<close> and \<open>PLAYING\<close>, and it is the bot's move of the last
  round (rock, paper or scissors) in \<open>RESULT\<close> and in \<open>GAME_OVER\<close>: the capture stores
  the move it drew, the start of a round and the new game clear it, and no other event
  changes it. In particular \<open>GAME_OVER\<close> keeps the move of the deciding round until the
  click on \<^verbatim>\<open>Play Again\<close>.
\<close>

theorem botGesture_by_phase:
  assumes "reachable s"
  shows "(gameState s \<in> {IDLE, COUNTDOWN, PLAYING} \<longrightarrow> botGesture s = NONE)
       \<and> (gameState s \<in> {RESULT, GAME_OVER} \<longrightarrow> botGesture s \<in> {ROCK, PAPER, SCISSORS})
       \<and> (\<forall>e s'. step e s = Some s' \<longrightarrow>
             (case e of
                Timeout_fires r \<Rightarrow> botMove r = Some (botGesture s')
              | Click_playRound \<Rightarrow> botGesture s' = NONE
              | Click_resetGame \<Rightarrow> botGesture s' = NONE
              | Interval_fires \<Rightarrow> botGesture s' = botGesture s
              | Detect g \<Rightarrow> botGesture s' = botGesture s))
       \<and> (gameState s = GAME_OVER \<longrightarrow>
            (\<forall>e s'. e \<noteq> Click_resetGame \<longrightarrow> step e s = Some s' \<longrightarrow>
               gameState s' = GAME_OVER \<and> botGesture s' = botGesture s))"
proof -
  from assms have inv: "session_inv s" by (rule reachable_inv)
  then have "botGesture s = NONE \<longleftrightarrow> gameState s \<in> {IDLE, COUNTDOWN, PLAYING}"
    by (simp add: session_inv_def)
  then have phase: "(gameState s \<in> {IDLE, COUNTDOWN, PLAYING} \<longrightarrow> botGesture s = NONE)
       \<and> (gameState s \<in> {RESULT, GAME_OVER} \<longrightarrow> botGesture s \<in> {ROCK, PAPER, SCISSORS})"
    by (cases "botGesture s"; cases "gameState s"; simp)
  have event: "case e of
                Timeout_fires r \<Rightarrow> botMove r = Some (botGesture s')
              | Click_playRound \<Rightarrow> botGesture s' = NONE
              | Click_resetGame \<Rightarrow> botGesture s' = NONE
              | Interval_fires \<Rightarrow> botGesture s' = botGesture s
              | Detect g \<Rightarrow> botGesture s' = botGesture s"
    if st: "step e s = Some s'" for e s'
  proof (cases e)
    case Click_playRound
    with st have s': "s' = commit s (playRound s)" and "playRound_button s"
      by (simp_all split: if_splits)
    then have "gameState s \<noteq> COUNTDOWN" by (auto simp: playRound_button_def)
    then have "botGesture s' = NONE" unfolding s' by (simp add: step_fields)
    with Click_playRound show ?thesis by simp
  next
    case Click_resetGame
    with st have s': "s' = commit s (resetGame s)" by (simp split: if_splits)
    have "botGesture s' = NONE" unfolding s' by (simp add: step_fields)
    with Click_resetGame show ?thesis by simp
  next
    case Interval_fires
    with st have s': "s' = commit s (interval_callback s)" by (simp split: if_splits)
    have "botGesture s' = botGesture s" unfolding s' by (simp add: step_fields)
    with Interval_fires show ?thesis by simp
  next
    case (Timeout_fires r)
    with st obtain p b where bm: "botMove r = Some b"
      and s': "s' = commit s (timeout_callback p b s)"
      by (auto split: option.splits if_splits)
    have "botGesture s' = b" unfolding s' by (simp add: step_fields Let_def)
    with bm Timeout_fires show ?thesis by simp
  next
    case (Detect g)
    with st have s': "s' = commit s (s\<lparr>playerGesture := g\<rparr>)" by simp
    have "botGesture s' = botGesture s" unfolding s' by (simp add: step_fields)
    with Detect show ?thesis by simp
  qed
  have kept: "gameState s' = GAME_OVER \<and> botGesture s' = botGesture s"
    if over: "gameState s = GAME_OVER" and e: "e \<noteq> Click_resetGame"
      and st: "step e s = Some s'" for e s'
  proof -
    from inv over have off: "\<not> timer s" "timeout s = None"
      by (simp_all add: session_inv_def)
    show ?thesis
    proof (cases e)
      case Click_playRound
      with st over show ?thesis by (simp add: playRound_button_def)
    next
      case Click_resetGame
      with e show ?thesis by simp
    next
      case Interval_fires
      with st off show ?thesis by simp
    next
      case (Timeout_fires r)
      with st off show ?thesis by simp
    next
      case (Detect g)
      with st have "s' = commit s (s\<lparr>playerGesture := g\<rparr>)" by simp
      with over show ?thesis by (simp add: step_fields)
    qed
  qed
  from phase event kept show ?thesis by blast
qed

text \<open>
  The sample session: just before the first capture \<open>botGesture\<close> is \<open>NONE\<close>; the
  capture that ends the game stores the scissors it drew; and at the end of the game a
  new reading of the detection loop leaves the scissors in place.
\<close>

theorem botGesture_by_phase_witness:
  "reachable (ex_playing 0) \<and> gameState (ex_playing 0) = PLAYING
   \<and> botGesture (ex_playing 0) = NONE
   \<and> reachable (ex_playing 2)
   \<and> step (Timeout_fires (Double 3 (- 2))) (ex_playing 2) = Some (ex_result GAME_OVER 3)
   \<and> botMove (Double 3 (- 2)) = Some (botGesture (ex_result GAME_OVER 3))
   \<and> reachable (ex_result GAME_OVER 3) \<and> gameState (ex_result GAME_OVER 3) = GAME_OVER
   \<and> botGesture (ex_result GAME_OVER 3) = SCISSORS
   \<and> step (Detect PAPER) (ex_result GAME_OVER 3)
       = Some ((ex_result GAME_OVER 3)\<lparr>playerGesture := PAPER\<rparr>)
   \<and> botGesture ((ex_result GAME_OVER 3)\<lparr>playerGesture := PAPER\<rparr>) = SCISSORS"
proof -
  have detect: "step (Detect PAPER) (ex_result GAME_OVER 3)
       = Some ((ex_result GAME_OVER 3)\<lparr>playerGesture := PAPER\<rparr>)"
    by (simp add: example_defs eval_defs)
  from botGesture_by_phase [OF reachable_examples(1)]
    botGesture_by_phase [OF reachable_examples(4)]
    botGesture_by_phase [OF reachable_examples(3)]
    reachable_examples third_round(2) detect botMove_examples(3)
  show ?thesis by (simp add: example_defs del: step.simps)
qed

section \<open>A new game\<close>

text \<open>
  Claim C8. In a \<open>GAME_OVER\<close> state of a session, the click on \<^verbatim>\<open>Play Again\<close> gives
  the initial state: score 0:0, phase \<open>IDLE\<close>, no result, both gestures \<open>NONE\<close> (and,
  beyond the claim, \<open>countdown\<close> 3 and no timer live).
\<close>

theorem resetGame_restores_initial:
  assumes "reachable s" and "gameState s = GAME_OVER"
  shows "step Click_resetGame s =
           Some \<lparr>gameState = IDLE, score = \<lparr>player = 0, bot = 0\<rparr>, playerGesture = NONE,
                 botGesture = NONE, gameResult = None, countdown = 3, timer = False,
                 timeout = None\<rparr>
       \<and> step Click_resetGame s = Some initial"
proof -
  from assms(1) have "session_inv s" by (rule reachable_inv)
  with assms(2) have "countdown s = 3" "\<not> timer s" "timeout s = None"
    by (simp_all add: session_inv_def)
  with assms(2) have "commit s (resetGame s) = initial"
    by (cases s) (simp add: engine_defs initial_def)
  with assms(2) show ?thesis by (simp add: resetGame_button_def initial_def)
qed

text \<open>
  The sample session at the end of the game.
\<close>

theorem resetGame_restores_initial_witness:
  "reachable (ex_result GAME_OVER 3) \<and> gameState (ex_result GAME_OVER 3) = GAME_OVER
   \<and> step Click_resetGame (ex_result GAME_OVER 3) = Some initial"
proof -
  have over: "gameState (ex_result GAME_OVER 3) = GAME_OVER" by (simp add: ex_result_def)
  from resetGame_restores_initial [OF reachable_examples(3) over] reachable_examples(3) over
  show ?thesis by (simp add: initial_def del: step.simps)
qed

section \<open>The capture\<close>

text \<open>
  Claim C9. In a \<open>PLAYING\<close> state of a session the capture timer is pending, and its
  callback holds the current \<open>playerGesture\<close>: each reading of the detection loop
  restarts the timer with the gesture just read. When the timer fires, for every value
  \<open>r\<close> that \<^verbatim>\<open>Math.random()\<close> can return the index
  \<^verbatim>\<open>Math.floor(r * 3)\<close>, computed in double arithmetic, is inside \<open>moves\<close>, so the
  bot's move is rock, paper or scissors and never \<open>NONE\<close>; each of the three is drawn
  for some \<open>r\<close> (0, 0.5 and 0.75), and next to the thirds the rounding of the product
  decides (the double nearest 1/3 draws paper, the double nearest 2/3 scissors). The
  move is stored in \<open>botGesture\<close>, the result stored is that of the resolution rule for
  the captured gesture and the move, and the score gains one point for the winner of a
  decisive round and is unchanged otherwise. The phase after the capture is
  \<open>RESULT\<close>, or \<open>GAME_OVER\<close> when the point was the third.
\<close>

theorem capture_transition:
  assumes "reachable s" and "gameState s = PLAYING" and "random_value r"
  shows "(\<exists>b s'. botMove r = Some b \<and> step (Timeout_fires r) s = Some s'
            \<and> b = moves ! double_floor (double_times r 3)
            \<and> double_floor (double_times r 3) < 3
            \<and> b \<in> {ROCK, PAPER, SCISSORS}
            \<and> botGesture s' = b
            \<and> timeout s = Some (playerGesture s)
            \<and> gameResult s' = Some (round_result (playerGesture s) b)
            \<and> score s' =
                (if determineWinner (playerGesture s) b = Winner_player
                   then (score s)\<lparr>player := player (score s) + 1\<rparr>
                 else if determineWinner (playerGesture s) b = Winner_bot
                   then (score s)\<lparr>bot := bot (score s) + 1\<rparr>
                 else score s)
            \<and> gameState s' =
                (if WINNING_SCORE \<le> player (score s') \<or> WINNING_SCORE \<le> bot (score s')
                 then GAME_OVER else RESULT))
       \<and> (\<forall>g s1. step (Detect g) s = Some s1 \<longrightarrow>
             gameState s1 = PLAYING \<and> playerGesture s1 = g \<and> timeout s1 = Some g)
       \<and> random_value (Double 0 0) \<and> botMove (Double 0 0) = Some ROCK
       \<and> random_value (Double 1 (- 1)) \<and> botMove (Double 1 (- 1)) = Some PAPER
       \<and> random_value (Double 3 (- 2)) \<and> botMove (Double 3 (- 2)) = Some SCISSORS
       \<and> random_value (Double 6004799503160661 (- 54))
       \<and> botMove (Double 6004799503160661 (- 54)) = Some PAPER
       \<and> random_value (Double 6004799503160661 (- 53))
       \<and> botMove (Double 6004799503160661 (- 53)) = Some SCISSORS
       \<and> random_value (Double 9007199254740991 (- 53))
       \<and> botMove (Double 9007199254740991 (- 53)) = Some SCISSORS"
proof -
  from assms(1) have inv: "session_inv s" by (rule reachable_inv)
  with assms(2) have pending: "timeout s = Some (playerGesture s)"
    by (simp add: session_inv_def)
  define p where "p = playerGesture s"
  define i where "i = double_floor (double_times r 3)"
  define b where "b = moves ! i"
  define s' where "s' = commit s (timeout_callback p b s)"
  have i: "i < 3" unfolding i_def using assms(3) by (rule floor_times_less)
  then have bm: "botMove r = Some b"
    by (simp add: botMove_def length_moves b_def i_def)
  then have "b = ROCK \<or> b = PAPER \<or> b = SCISSORS" by (rule botMove_in_moves)
  then have b: "b \<in> {ROCK, PAPER, SCISSORS}" by simp
  have st: "step (Timeout_fires r) s = Some s'"
    using pending assms(3) bm by (simp add: s'_def p_def)
  have bot: "botGesture s' = b"
    unfolding s'_def by (simp add: step_fields Let_def)
  have res: "gameResult s' = Some (round_result p b)"
    unfolding s'_def by (simp add: step_fields Let_def)
  have sc: "score s' =
      (if determineWinner p b = Winner_player
         then (score s)\<lparr>player := player (score s) + 1\<rparr>
       else if determineWinner p b = Winner_bot
         then (score s)\<lparr>bot := bot (score s) + 1\<rparr>
       else score s)"
    unfolding s'_def by (simp add: step_fields Let_def)
  have "session_inv s'" using inv st by (rule inv_step)
  then have over: "gameState s' = GAME_OVER \<longleftrightarrow>
      WINNING_SCORE \<le> player (score s') \<or> WINNING_SCORE \<le> bot (score s')"
    by (simp add: session_inv_def)
  have "gameState s' = GAME_OVER \<or> gameState s' = RESULT"
    unfolding s'_def by (simp add: step_fields Let_def)
  with over have ph: "gameState s' =
      (if WINNING_SCORE \<le> player (score s') \<or> WINNING_SCORE \<le> bot (score s')
       then GAME_OVER else RESULT)"
    by auto
  have first: "\<exists>b s'. botMove r = Some b \<and> step (Timeout_fires r) s = Some s'
            \<and> b = moves ! double_floor (double_times r 3)
            \<and> double_floor (double_times r 3) < 3
            \<and> b \<in> {ROCK, PAPER, SCISSORS}
            \<and> botGesture s' = b
            \<and> timeout s = Some (playerGesture s)
            \<and> gameResult s' = Some (round_result (playerGesture s) b)
            \<and> score s' =
                (if determineWinner (playerGesture s) b = Winner_player
                   then (score s)\<lparr>player := player (score s) + 1\<rparr>
                 else if determineWinner (playerGesture s) b = Winner_bot
                   then (score s)\<lparr>bot := bot (score s) + 1\<rparr>
                 else score s)
            \<and> gameState s' =
                (if WINNING_SCORE \<le> player (score s') \<or> WINNING_SCORE \<le> bot (score s')
                 then GAME_OVER else RESULT)"
    using bm st b i bot pending res sc ph unfolding p_def b_def i_def by blast
  have poll: "gameState s1 = PLAYING \<and> playerGesture s1 = g \<and> timeout s1 = Some g"
    if "step (Detect g) s = Some s1" for g s1
  proof -
    from that have "s1 = commit s (s\<lparr>playerGesture := g\<rparr>)" by simp
    with assms(2) pending show ?thesis by (simp add: step_fields)
  qed
  from first poll botMove_examples random_value_examples show ?thesis by blast
qed

text \<open>
  The capture of the third sample round, which ends the game.
\<close>

theorem capture_transition_witness:
  "reachable (ex_playing 2) \<and> gameState (ex_playing 2) = PLAYING
   \<and> random_value (Double 3 (- 2))
   \<and> step (Timeout_fires (Double 3 (- 2))) (ex_playing 2) = Some (ex_result GAME_OVER 3)
   \<and> botGesture (ex_result GAME_OVER 3) = SCISSORS"
proof -
  have reach: "reachable (ex_playing 2)" by (rule reachable_examples(4))
  have ph: "gameState (ex_playing 2) = PLAYING" by (simp add: ex_playing_def)
  have draw: "random_value (Double 3 (- 2))" by (rule random_value_examples(3))
  from capture_transition [OF reach ph draw] reach ph draw third_round(2)
  show ?thesis by (simp add: ex_result_def del: step.simps)
qed

section \<open>Gesture detection\<close>

text \<open>
  Claim C10. \<^verbatim>\<open>detect\<close> always returns a detection and never throws. The detection is
  \<open>NONE\<close> with confidence 0 when the recognizer is not initialised, when the video's
  \<^verbatim>\<open>currentTime\<close> is 0, when recognition throws, and when the list of recognised
  gestures is empty (or its first entry is an empty list, where reading the top
  category throws inside the \<^verbatim>\<open>try\<close> block). Otherwise the name of the top category
  selects the gesture, \<^verbatim>\<open>Closed_Fist\<close> rock, \<^verbatim>\<open>Open_Palm\<close> paper, \<^verbatim>\<open>Victory\<close>
  scissors and any other name \<open>NONE\<close>, and the confidence is that category's score.
\<close>

theorem detect_total:
  "(\<exists>d. detect gr t = Inr d)
   \<and> detect None t = Inr \<lparr>gesture = NONE, confidence = 0\<rparr>
   \<and> detect gr 0 = Inr \<lparr>gesture = NONE, confidence = 0\<rparr>
   \<and> detect (Some Throws) t = Inr \<lparr>gesture = NONE, confidence = 0\<rparr>
   \<and> detect (Some (Recognized [])) t = Inr \<lparr>gesture = NONE, confidence = 0\<rparr>
   \<and> detect (Some (Recognized ([] # gs))) t = Inr \<lparr>gesture = NONE, confidence = 0\<rparr>
   \<and> (t \<noteq> 0 \<longrightarrow>
        detect (Some (Recognized ((Category name sc # cs) # gs))) t =
          Inr \<lparr>gesture = (if name = ''Closed_Fist'' then ROCK
                           else if name = ''Open_Palm'' then PAPER
                           else if name = ''Victory'' then SCISSORS
                           else NONE),
               confidence = sc\<rparr>)"
proof -
  have total: "\<exists>d. detect gr t = Inr d"
    by (simp add: detect_def split: option.splits sum.splits)
  have uninit: "detect None t = Inr \<lparr>gesture = NONE, confidence = 0\<rparr>"
    by (simp add: detect_def)
  have notime: "detect gr 0 = Inr \<lparr>gesture = NONE, confidence = 0\<rparr>"
    by (simp add: detect_def split: option.splits)
  have throws: "detect (Some Throws) t = Inr \<lparr>gesture = NONE, confidence = 0\<rparr>"
    by (simp add: detect_def detect_try_def)
  have empty: "detect (Some (Recognized [])) t = Inr \<lparr>gesture = NONE, confidence = 0\<rparr>"
    by (simp add: detect_def detect_try_def)
  have undef: "detect (Some (Recognized ([] # gs))) t = Inr \<lparr>gesture = NONE, confidence = 0\<rparr>"
    by (simp add: detect_def detect_try_def)
  have top: "t \<noteq> 0 \<longrightarrow>
        detect (Some (Recognized ((Category name sc # cs) # gs))) t =
          Inr \<lparr>gesture = (if name = ''Closed_Fist'' then ROCK
                           else if name = ''Open_Palm'' then PAPER
                           else if name = ''Victory'' then SCISSORS
                           else NONE),
               confidence = sc\<rparr>"
    by (simp add: detect_def detect_try_def Let_def)
  from total uninit notime throws empty undef top show ?thesis by blast
qed

text \<open>
  Three frames: a victory sign, a gesture outside the game, and a fist on a video that
  has not started.
\<close>

theorem detect_total_witness:
  "(1::real) \<noteq> 0
   \<and> detect (Some (Recognized [[Category ''Victory'' (3/4), Category ''None'' (1/4)]])) 1
       = Inr \<lparr>gesture = SCISSORS, confidence = 3/4\<rparr>
   \<and> detect (Some (Recognized [[Category ''Thumb_Up'' (1/2)]])) 1
       = Inr \<lparr>gesture = NONE, confidence = 1/2\<rparr>
   \<and> detect (Some (Recognized [[Category ''Closed_Fist'' (9/10)]])) 0
       = Inr \<lparr>gesture = NONE, confidence = 0\<rparr>"
  using detect_total [of "Some (Recognized [[Category ''Victory'' (3/4), Category ''None'' (1/4)]])" 1
      "[]" "''Victory''" "3/4" "[Category ''None'' (1/4)]"]
    detect_total [of "Some (Recognized [[Category ''Thumb_Up'' (1/2)]])" 1
      "[]" "''Thumb_Up''" "1/2" "[]"]
    detect_total [of "Some (Recognized [[Category ''Closed_Fist'' (9/10)]])" 0]
  by simp

end
